theory Spec2Isabelle
  imports Main "HOL-Library.Finite_Map" "HOL-Library.Sublist"
begin

section \<open>JSON values\<close>

text \<open>
  The values that cross the connector's interface are JSON values: both transform
  functions start with \<^verbatim>\<open>JSON.parse( JSON.stringify( value ) )\<close>, a deep copy that is the
  identity on JSON values. Numbers are opaque to the connector and are modelled as
  integers. A JavaScript object is a finite map from property names to values, so that
  equality of the model is deep equality (property order is not observable by it); an
  array is a list, whose order is.
\<close>

datatype json =
    JNull
  | JBool bool
  | JNum int
  | JStr string
  | JArr "json list"
  | JObj "(string, json) fmap"

type_synonym object = "(string, json) fmap"

text \<open>
  The exceptions of the JavaScript engine that the source can raise. The file
  \<^verbatim>\<open>transform-data.js\<close> is in strict mode, where creating a property on \<^verbatim>\<open>undefined\<close>,
  on \<^verbatim>\<open>null\<close> and also on a primitive value throws a \<^verbatim>\<open>TypeError\<close>.
\<close>

datatype js_error = TypeError

text \<open>
  What \<^verbatim>\<open>transformValueFromStorage\<close> can return: a JSON value, or (when the stored
  \<^verbatim>\<open>__ds\<close> is itself an array) that array carrying an extra named property \<^verbatim>\<open>_d\<close>,
  which is a JavaScript value but not a JSON value.
\<close>

datatype js_value = Plain json | ArrayWith_d "json list" json

section \<open>transform-data.js\<close>

text \<open>
  \<^verbatim>\<open>
  value = JSON.parse( JSON.stringify( value ) )
  var data = value._d
  delete value._d
  if( data instanceof Array ) { data = { __dsList: data, __ds: value } }
  else { data.__ds = value }
  return data
  \<close>
  Reading \<^verbatim>\<open>value._d\<close> throws on \<^verbatim>\<open>null\<close> and gives \<^verbatim>\<open>undefined\<close> on every other value
  that has no such property; the assignment \<^verbatim>\<open>data.__ds = value\<close> throws unless
  \<^verbatim>\<open>data\<close> is an object.
\<close>

definition transformValueForStorage :: "json \<Rightarrow> js_error + object" where
  "transformValueForStorage v =
     (case v of
        JObj m \<Rightarrow>
          (let data = fmlookup m ''_d'';
               rest = fmdrop ''_d'' m
           in case data of
                Some (JArr xs) \<Rightarrow>
                  Inr (fmupd ''__ds'' (JObj rest) (fmupd ''__dsList'' (JArr xs) fmempty))
              | Some (JObj d) \<Rightarrow> Inr (fmupd ''__ds'' (JObj rest) d)
              | _ \<Rightarrow> Inl TypeError)
      | _ \<Rightarrow> Inl TypeError)"

text \<open>
  \<^verbatim>\<open>
  value = JSON.parse( JSON.stringify( value ) )
  var data = value.__ds;
  delete value.__ds; delete value._key; delete value._rev; delete value._id;
  if( value.__dsList instanceof Array ) { data._d = value.__dsList }
  else { data._d = value }
  return data
  \<close>
  The argument is a document of the store, an object.
\<close>

definition transformValueFromStorage :: "object \<Rightarrow> js_error + js_value" where
  "transformValueFromStorage m =
     (let data = fmlookup m ''__ds'';
          rest = fmdrop ''_id'' (fmdrop ''_rev'' (fmdrop ''_key'' (fmdrop ''__ds'' m)));
          d = (case fmlookup rest ''__dsList'' of
                 Some (JArr xs) \<Rightarrow> JArr xs
               | _ \<Rightarrow> JObj rest)
      in case data of
           Some (JObj meta) \<Rightarrow> Inr (Plain (JObj (fmupd ''_d'' d meta)))
         | Some (JArr xs) \<Rightarrow> Inr (ArrayWith_d xs d)
         | _ \<Rightarrow> Inl TypeError)"

text \<open>The payloads that the claims speak of: objects and arrays; everything else is primitive.\<close>

fun is_object :: "json \<Rightarrow> bool" where
  "is_object (JObj m) = True"
| "is_object v = False"

fun is_array :: "json \<Rightarrow> bool" where
  "is_array (JArr xs) = True"
| "is_array v = False"

text \<open>
  The property names that the storage envelope reserves inside an object payload:
  \<^verbatim>\<open>__ds\<close> is overwritten by the metadata, \<^verbatim>\<open>_key\<close>, \<^verbatim>\<open>_rev\<close> and \<^verbatim>\<open>_id\<close> are deleted
  on the way back, and an array under \<^verbatim>\<open>__dsList\<close> is taken for the whole payload.
\<close>

definition reserved_free :: "json \<Rightarrow> bool" where
  "reserved_free d =
     (case d of
        JArr xs \<Rightarrow> True
      | JObj p \<Rightarrow>
          fmlookup p ''__ds'' = None \<and> fmlookup p ''_key'' = None \<and>
          fmlookup p ''_rev'' = None \<and> fmlookup p ''_id'' = None \<and>
          (case fmlookup p ''__dsList'' of Some (JArr xs) \<Rightarrow> False | _ \<Rightarrow> True)
      | _ \<Rightarrow> False)"

text \<open>Reading a property of a JSON value: \<^verbatim>\<open>undefined\<close> (\<open>None\<close>) unless it is an object that has it.\<close>

fun field :: "json \<Rightarrow> string \<Rightarrow> json option" where
  "field (JObj m) k = fmlookup m k"
| "field v k = None"

section \<open>connector.js: the connector and what it does to the outside\<close>

text \<open>
  Strings are lists of code units. \<^verbatim>\<open>String.prototype.indexOf\<close> gives the index of the
  first occurrence of the search string, \<open>-1\<close> when there is none.
\<close>

fun indexOf :: "string \<Rightarrow> string \<Rightarrow> int" where
  "indexOf [] s = (if s = [] then 0 else - 1)"
| "indexOf (c # cs) s =
     (if prefix s (c # cs) then 0
      else (let i = indexOf cs s in if i = - 1 then - 1 else i + 1))"

text \<open>
  \<^verbatim>\<open>indexOf\<close> converts its argument to a string first: the \<^verbatim>\<open>null\<close> that stands for
  "no delimiter" becomes the four characters \<^verbatim>\<open>null\<close>.
\<close>

fun ToString :: "string option \<Rightarrow> string" where
  "ToString None = ''null''"
| "ToString (Some s) = s"

text \<open>
  The options of the constructor; an absent option is \<open>None\<close>.
\<close>

record options =
  databaseURL :: "string option"
  databaseName :: "string option"
  username :: "string option"
  password :: "string option"
  defaultCollection :: "string option"
  splitChar :: "string option"

text \<open>\<^verbatim>\<open>x || d\<close> on an optional string: the empty string is falsy, as \<^verbatim>\<open>undefined\<close> is.\<close>

fun or_default :: "string option \<Rightarrow> string \<Rightarrow> string" where
  "or_default None d = d"
| "or_default (Some s) d = (if s = [] then d else s)"

fun or_null :: "string option \<Rightarrow> string option" where
  "or_null None = None"
| "or_null (Some s) = (if s = [] then None else Some s)"

text \<open>
  What \<^verbatim>\<open>this._collections[ name ]\<close> can hold: a collection handle made by
  \<^verbatim>\<open>this._db.collection( name )\<close>, which is identified by its name, or, since the cache
  is the plain object \<^verbatim>\<open>{}\<close>, the value of a property that every object inherits
  from \<^verbatim>\<open>Object.prototype\<close>.
\<close>

datatype collection_ref = Handle string | Inherited string

definition Object_prototype :: "string list" where
  "Object_prototype =
     [''constructor'', ''hasOwnProperty'', ''isPrototypeOf'', ''propertyIsEnumerable'',
      ''toLocaleString'', ''toString'', ''valueOf'', ''__proto__'',
      ''__defineGetter__'', ''__defineSetter__'', ''__lookupGetter__'', ''__lookupSetter__'']"

text \<open>
  The callbacks of the callers are opaque; a callback is known by a number. The values
  it can be called with: an error of the store is an opaque message.
\<close>

type_synonym callback = nat
type_synonym store_error = string

datatype arg =
    Undefined
  | Null
  | TrueV
  | Str string
  | Error store_error
  | Value js_value

text \<open>
  A cursor of the store client holds the records that remain to be read.
  The requests that the connector sends to the store client; each one carries what the
  closure that is passed along with it has captured.
\<close>

type_synonym cursor = "object list"

datatype request =
    ListUserDatabases
  | CreateDatabase string string string
  | CollectionGet string
  | CollectionCreate string
  | QueryUpsert collection_ref string object callback
  | QueryFetch collection_ref string callback
  | QueryRemove string collection_ref callback
  | CursorNext cursor callback

datatype event = Ready | ErrorEvent store_error

text \<open>
  The connector of the source, followed by what it has done to the outside so far, in
  program order: the requests sent to the store client, the callbacks called, the lines
  written with \<^verbatim>\<open>console.error\<close> and the events emitted.
\<close>

record connector =
  isReady :: bool
  this_dbUrl :: string
  this_databaseName :: string
  this_databaseUser :: string
  this_databasePass :: string
  this_splitChar :: "string option"
  this_defaultCollection :: string
  this_collections :: "(string, collection_ref) fmap"
  issued :: "request list"
  invoked :: "(callback \<times> arg \<times> arg) list"
  console_error :: "store_error list"
  emitted :: "event list"

definition issue :: "connector \<Rightarrow> request \<Rightarrow> connector" where
  "issue c r = c\<lparr>issued := issued c @ [r]\<rparr>"

definition invoke :: "connector \<Rightarrow> callback \<Rightarrow> arg \<Rightarrow> arg \<Rightarrow> connector" where
  "invoke c cb a b = c\<lparr>invoked := invoked c @ [(cb, a, b)]\<rparr>"

definition emit :: "connector \<Rightarrow> event \<Rightarrow> connector" where
  "emit c e = c\<lparr>emitted := emitted c @ [e]\<rparr>"

subsection \<open>The constructor and the bootstrap\<close>

definition Connector_constructor :: "options \<Rightarrow> connector" where
  "Connector_constructor opts =
     \<lparr>isReady = False,
      this_dbUrl = or_default (databaseURL opts) ''http://127.0.0.1:8529'',
      this_databaseName = or_default (databaseName opts) ''deepstream'',
      this_databaseUser = or_default (username opts) ''deepstream'',
      this_databasePass = or_default (password opts) ''deepstream'',
      this_splitChar = or_null (splitChar opts),
      this_defaultCollection = or_default (defaultCollection opts) ''deepstream_docs'',
      this_collections = fmempty,
      issued = [ListUserDatabases],
      invoked = [],
      console_error = [],
      emitted = []\<rparr>"

text \<open>The end of the promise chain: the database is selected, the connector is ready.\<close>

definition useDatabase_then :: "connector \<Rightarrow> connector" where
  "useDatabase_then c = emit (c\<lparr>isReady := True\<rparr>) Ready"

text \<open>The answer to \<^verbatim>\<open>listUserDatabases\<close>: a rejection, or the names.\<close>

definition listUserDatabases_then :: "connector \<Rightarrow> store_error + string list \<Rightarrow> connector" where
  "listUserDatabases_then c r =
     (case r of
        Inl err \<Rightarrow> emit c (ErrorEvent err)
      | Inr names \<Rightarrow>
          if this_databaseName c \<in> set names then useDatabase_then c
          else issue c (CreateDatabase (this_databaseName c) (this_databaseUser c)
                          (this_databasePass c)))"

definition createDatabase_then :: "connector \<Rightarrow> store_error option \<Rightarrow> connector" where
  "createDatabase_then c r =
     (case r of
        Some err \<Rightarrow> emit c (ErrorEvent err)
      | None \<Rightarrow> useDatabase_then c)"

subsection \<open>\<^verbatim>\<open>_getCollection\<close>\<close>

text \<open>
  \<^verbatim>\<open>this._collections[ collectionName ]\<close>: an own property of the cache, else a property
  inherited from \<^verbatim>\<open>Object.prototype\<close>, else \<^verbatim>\<open>undefined\<close>. Handles, and the inherited
  functions and objects, are all truthy.
\<close>

definition collections_lookup :: "connector \<Rightarrow> string \<Rightarrow> collection_ref option" where
  "collections_lookup c collectionName =
     (case fmlookup (this_collections c) collectionName of
        Some h \<Rightarrow> Some h
      | None \<Rightarrow>
          if collectionName \<in> set Object_prototype then Some (Inherited collectionName)
          else None)"

text \<open>
  \<^verbatim>\<open>
  if( !this._collections[ collectionName ] ) {
      this._collections[ collectionName ] = this._db.collection( collectionName );
      this._collections[ collectionName ].get((err, res) => { ... })
  }
  return this._collections[ collectionName ]
  \<close>
\<close>

definition Connector_getCollection :: "connector \<Rightarrow> string \<Rightarrow> collection_ref \<times> connector" where
  "Connector_getCollection c collectionName =
     (case collections_lookup c collectionName of
        None \<Rightarrow>
          (Handle collectionName,
           issue (c\<lparr>this_collections :=
                      fmupd collectionName (Handle collectionName) (this_collections c)\<rparr>)
                 (CollectionGet collectionName))
      | Some h \<Rightarrow> (h, c))"

text \<open>
  The callback of the existence check: \<^verbatim>\<open>if (err) { this._collections[ name ].create(...) }\<close>,
  and the callback of the creation: \<^verbatim>\<open>if (err) {console.error(err)}\<close>.
\<close>

definition collection_get_then :: "connector \<Rightarrow> string \<Rightarrow> store_error option \<Rightarrow> connector" where
  "collection_get_then c collectionName err =
     (case err of
        Some e \<Rightarrow> issue c (CollectionCreate collectionName)
      | None \<Rightarrow> c)"

definition collection_create_then :: "connector \<Rightarrow> string \<Rightarrow> store_error option \<Rightarrow> connector" where
  "collection_create_then c collectionName err =
     (case err of
        Some e \<Rightarrow> c\<lparr>console_error := console_error c @ [e]\<rparr>
      | None \<Rightarrow> c)"

subsection \<open>\<^verbatim>\<open>_getParams\<close>\<close>

text \<open>
  The local variables \<^verbatim>\<open>collectionName\<close> and \<^verbatim>\<open>id\<close> of \<^verbatim>\<open>_getParams\<close>, \<open>None\<close> where
  it returns \<^verbatim>\<open>null\<close>:
  \<^verbatim>\<open>
  const index = key.indexOf( this._splitChar );
  if( index === 0 ) { return null }
  else if( index === -1 ) { collectionName = this._defaultCollection; id = key }
  else { collectionName = key.substring(0, index); id = key.substring(index + 1); }
  \<close>
\<close>

definition getParams_names :: "connector \<Rightarrow> string \<Rightarrow> (string \<times> string) option" where
  "getParams_names c key =
     (let index = indexOf key (ToString (this_splitChar c))
      in if index = 0 then None
         else if index = - 1 then Some (this_defaultCollection c, key)
         else Some (take (nat index) key, drop (nat index + 1) key))"

record params =
  params_collection :: collection_ref
  params_id :: string

text \<open>\<^verbatim>\<open>return { collection: this._getCollection( collectionName ), id }\<close>\<close>

definition Connector_getParams :: "connector \<Rightarrow> string \<Rightarrow> params option \<times> connector" where
  "Connector_getParams c key =
     (case getParams_names c key of
        None \<Rightarrow> (None, c)
      | Some (collectionName, i) \<Rightarrow>
          (let (h, c') = Connector_getCollection c collectionName
           in (Some \<lparr>params_collection = h, params_id = i\<rparr>, c')))"

subsection \<open>\<^verbatim>\<open>set\<close>, \<^verbatim>\<open>get\<close>, \<^verbatim>\<open>delete\<close> and their callbacks\<close>

text \<open>
  Each operation returns the exception it throws, if any, and the connector afterwards.
  \<^verbatim>\<open>set\<close> sends the upsert with \<^verbatim>\<open>params.id\<close> as the \<^verbatim>\<open>_key\<close>; \<^verbatim>\<open>get\<close> and
  \<^verbatim>\<open>delete\<close> send their query with the \<^verbatim>\<open>key\<close> they were called with.
\<close>

definition Connector_set ::
  "connector \<Rightarrow> string \<Rightarrow> json \<Rightarrow> callback \<Rightarrow> js_error option \<times> connector" where
  "Connector_set c key v cb =
     (case Connector_getParams c key of
        (None, c') \<Rightarrow> (None, invoke c' cb (Str (''Invalid key '' @ key)) Undefined)
      | (Some p, c') \<Rightarrow>
          (case transformValueForStorage v of
             Inl e \<Rightarrow> (Some e, c')
           | Inr doc \<Rightarrow>
               (None, issue c' (QueryUpsert (params_collection p) (params_id p)
                                  (fmupd ''_key'' (JStr (params_id p)) doc) cb))))"

text \<open>\<^verbatim>\<open>(err, res) => { if (err) return callback(err, res); callback(null, true); }\<close>\<close>

definition set_then :: "connector \<Rightarrow> callback \<Rightarrow> store_error option \<Rightarrow> arg \<Rightarrow> connector" where
  "set_then c cb err res =
     (case err of
        Some e \<Rightarrow> invoke c cb (Error e) res
      | None \<Rightarrow> invoke c cb Null TrueV)"

definition Connector_get :: "connector \<Rightarrow> string \<Rightarrow> callback \<Rightarrow> js_error option \<times> connector" where
  "Connector_get c key cb =
     (case Connector_getParams c key of
        (None, c') \<Rightarrow> (None, invoke c' cb (Str (''Invalid key '' @ key)) Undefined)
      | (Some p, c') \<Rightarrow> (None, issue c' (QueryFetch (params_collection p) key cb)))"

text \<open>\<^verbatim>\<open>(err, cursor) => { if (err) return callback(err, null); cursor.next(...) }\<close>\<close>

definition get_then :: "connector \<Rightarrow> callback \<Rightarrow> store_error option \<Rightarrow> cursor \<Rightarrow> connector" where
  "get_then c cb err cur =
     (case err of
        Some e \<Rightarrow> invoke c cb (Error e) Null
      | None \<Rightarrow> issue c (CursorNext cur cb))"

text \<open>
  \<^verbatim>\<open>
  (err, record) => {
      if (err || !record) return callback(null, null);
      let doc = dataTransform.transformValueFromStorage(record)
      callback(null, doc);
  }
  \<close>
  A record is an object, hence truthy; no record is \<^verbatim>\<open>undefined\<close>.
\<close>

definition next_then ::
  "connector \<Rightarrow> callback \<Rightarrow> store_error option \<Rightarrow> object option \<Rightarrow> js_error option \<times> connector" where
  "next_then c cb err record =
     (if err \<noteq> None \<or> record = None then (None, invoke c cb Null Null)
      else (case transformValueFromStorage (the record) of
              Inl e \<Rightarrow> (Some e, c)
            | Inr doc \<Rightarrow> (None, invoke c cb Null (Value doc))))"

definition Connector_delete :: "connector \<Rightarrow> string \<Rightarrow> callback \<Rightarrow> js_error option \<times> connector" where
  "Connector_delete c key cb =
     (case Connector_getParams c key of
        (None, c') \<Rightarrow> (None, invoke c' cb (Str (''Invalid key '' @ key)) Undefined)
      | (Some p, c') \<Rightarrow> (None, issue c' (QueryRemove key (params_collection p) cb)))"

text \<open>\<^verbatim>\<open>(err, res) => { if (err) return callback(err, null); callback(null, true); }\<close>\<close>

definition delete_then :: "connector \<Rightarrow> callback \<Rightarrow> store_error option \<Rightarrow> connector" where
  "delete_then c cb err =
     (case err of
        Some e \<Rightarrow> invoke c cb (Error e) Null
      | None \<Rightarrow> invoke c cb Null TrueV)"

section \<open>A reference model of the store client and of the event loop\<close>

text \<open>
  The document store is not part of the repository. To run whole scenarios, this is the
  contract that the connector relies on: a database holds named collections, a collection
  holds documents by their \<^verbatim>\<open>_key\<close>; a query on a collection that does not exist, or
  on something that is not a collection, fails; a document read back carries the
  bookkeeping fields \<^verbatim>\<open>_id\<close> and \<^verbatim>\<open>_rev\<close> of the store.
\<close>

record store =
  databases :: "string list"
  colls :: "(string, (string, object) fmap) fmap"

definition store_createDatabase :: "store \<Rightarrow> string \<Rightarrow> store_error option \<times> store" where
  "store_createDatabase s name =
     (if name \<in> set (databases s) then (Some ''duplicate database name'', s)
      else (None, s\<lparr>databases := databases s @ [name]\<rparr>))"

definition store_collection_get :: "store \<Rightarrow> string \<Rightarrow> store_error option" where
  "store_collection_get s name =
     (case fmlookup (colls s) name of
        None \<Rightarrow> Some ''collection not found''
      | Some docs \<Rightarrow> None)"

definition store_collection_create :: "store \<Rightarrow> string \<Rightarrow> store_error option \<times> store" where
  "store_collection_create s name =
     (case fmlookup (colls s) name of
        None \<Rightarrow> (None, s\<lparr>colls := fmupd name fmempty (colls s)\<rparr>)
      | Some docs \<Rightarrow> (Some ''duplicate collection name'', s))"

text \<open>\<^verbatim>\<open>UPSERT { _key: k } INSERT doc REPLACE doc IN collection\<close>\<close>

definition store_upsert ::
  "store \<Rightarrow> collection_ref \<Rightarrow> string \<Rightarrow> object \<Rightarrow> store_error option \<times> store" where
  "store_upsert s h k doc =
     (case h of
        Inherited n \<Rightarrow> (Some ''not a collection'', s)
      | Handle name \<Rightarrow>
          (case fmlookup (colls s) name of
             None \<Rightarrow> (Some ''collection not found'', s)
           | Some docs \<Rightarrow> (None, s\<lparr>colls := fmupd name (fmupd k doc docs) (colls s)\<rparr>)))"

text \<open>\<^verbatim>\<open>FOR r IN collection FILTER r._key == k LIMIT 1 RETURN r\<close>\<close>

definition store_fetch ::
  "store \<Rightarrow> collection_ref \<Rightarrow> string \<Rightarrow> store_error option \<times> cursor" where
  "store_fetch s h k =
     (case h of
        Inherited n \<Rightarrow> (Some ''not a collection'', [])
      | Handle name \<Rightarrow>
          (case fmlookup (colls s) name of
             None \<Rightarrow> (Some ''collection not found'', [])
           | Some docs \<Rightarrow>
               (case fmlookup docs k of
                  None \<Rightarrow> (None, [])
                | Some doc \<Rightarrow>
                    (None, [fmupd ''_id'' (JStr (name @ ''/'' @ k))
                              (fmupd ''_rev'' (JStr ''_rev'') doc)]))))"

text \<open>\<^verbatim>\<open>REMOVE k IN collection\<close>\<close>

definition store_remove ::
  "store \<Rightarrow> string \<Rightarrow> collection_ref \<Rightarrow> store_error option \<times> store" where
  "store_remove s k h =
     (case h of
        Inherited n \<Rightarrow> (Some ''not a collection'', s)
      | Handle name \<Rightarrow>
          (case fmlookup (colls s) name of
             None \<Rightarrow> (Some ''collection not found'', s)
           | Some docs \<Rightarrow>
               (case fmlookup docs k of
                  None \<Rightarrow> (Some ''document not found'', s)
                | Some doc \<Rightarrow> (None, s\<lparr>colls := fmupd name (fmdrop k docs) (colls s)\<rparr>))))"

fun cursor_next :: "cursor \<Rightarrow> object option" where
  "cursor_next [] = None"
| "cursor_next (r # rs) = Some r"

text \<open>
  The world: the connector, the store, how many of the connector's requests the store has
  answered, and the exceptions that escaped. A step answers the oldest open request and
  runs the callback that the connector passed with it.
\<close>

record world =
  conn :: connector
  db :: store
  answered :: nat
  thrown :: "js_error list"

fun raised :: "js_error option \<Rightarrow> js_error list" where
  "raised None = []"
| "raised (Some e) = [e]"

definition answer :: "world \<Rightarrow> request \<Rightarrow> world" where
  "answer w r =
     (let c = conn w; s = db w
      in case r of
           ListUserDatabases \<Rightarrow> w\<lparr>conn := listUserDatabases_then c (Inr (databases s))\<rparr>
         | CreateDatabase name u p \<Rightarrow>
             (let (err, s') = store_createDatabase s name
              in w\<lparr>conn := createDatabase_then c err, db := s'\<rparr>)
         | CollectionGet name \<Rightarrow>
             w\<lparr>conn := collection_get_then c name (store_collection_get s name)\<rparr>
         | CollectionCreate name \<Rightarrow>
             (let (err, s') = store_collection_create s name
              in w\<lparr>conn := collection_create_then c name err, db := s'\<rparr>)
         | QueryUpsert h k doc cb \<Rightarrow>
             (let (err, s') = store_upsert s h k doc
              in w\<lparr>conn := set_then c cb err Undefined, db := s'\<rparr>)
         | QueryFetch h k cb \<Rightarrow>
             (let (err, cur) = store_fetch s h k
              in w\<lparr>conn := get_then c cb err cur\<rparr>)
         | QueryRemove k h cb \<Rightarrow>
             (let (err, s') = store_remove s k h
              in w\<lparr>conn := delete_then c cb err, db := s'\<rparr>)
         | CursorNext cur cb \<Rightarrow>
             (let (ex, c') = next_then c cb None (cursor_next cur)
              in w\<lparr>conn := c', thrown := thrown w @ raised ex\<rparr>))"

definition step :: "world \<Rightarrow> world" where
  "step w =
     (if answered w < length (issued (conn w))
      then answer (w\<lparr>answered := answered w + 1\<rparr>) (issued (conn w) ! answered w)
      else w)"

fun run :: "nat \<Rightarrow> world \<Rightarrow> world" where
  "run 0 w = w"
| "run (Suc n) w = run n (step w)"

text \<open>A caller calls an operation of the connector.\<close>

definition call :: "world \<Rightarrow> (connector \<Rightarrow> js_error option \<times> connector) \<Rightarrow> world" where
  "call w operation =
     (let (ex, c') = operation (conn w)
      in w\<lparr>conn := c', thrown := thrown w @ raised ex\<rparr>)"

definition boot :: "options \<Rightarrow> store \<Rightarrow> world" where
  "boot opts s = \<lparr>conn = Connector_constructor opts, db = s, answered = 0, thrown = []\<rparr>"

text \<open>The store has answered every request of the connector.\<close>

definition quiescent :: "world \<Rightarrow> bool" where
  "quiescent w = (answered w = length (issued (conn w)))"

section \<open>The states that a connector can reach\<close>

text \<open>
  A connector starts from the constructor; a caller may call \<^verbatim>\<open>set\<close>, \<^verbatim>\<open>get\<close> or
  \<^verbatim>\<open>delete\<close> at any time; the store client answers each request at most once, in any
  order and with any result. The second component is the set of the positions, in the
  list of the requests sent, that have been answered.
\<close>

inductive reachable :: "connector \<Rightarrow> nat set \<Rightarrow> bool" where
  constructed: "reachable (Connector_constructor opts) {}"
| called_set: "reachable c A \<Longrightarrow> reachable (snd (Connector_set c key v cb)) A"
| called_get: "reachable c A \<Longrightarrow> reachable (snd (Connector_get c key cb)) A"
| called_delete: "reachable c A \<Longrightarrow> reachable (snd (Connector_delete c key cb)) A"
| answered_listUserDatabases:
    "reachable c A \<Longrightarrow> i < length (issued c) \<Longrightarrow> i \<notin> A \<Longrightarrow>
     issued c ! i = ListUserDatabases \<Longrightarrow>
     reachable (listUserDatabases_then c r) (insert i A)"
| answered_createDatabase:
    "reachable c A \<Longrightarrow> i < length (issued c) \<Longrightarrow> i \<notin> A \<Longrightarrow>
     issued c ! i = CreateDatabase n u p \<Longrightarrow>
     reachable (createDatabase_then c err) (insert i A)"
| answered_collection_get:
    "reachable c A \<Longrightarrow> i < length (issued c) \<Longrightarrow> i \<notin> A \<Longrightarrow>
     issued c ! i = CollectionGet n \<Longrightarrow>
     reachable (collection_get_then c n err) (insert i A)"
| answered_collection_create:
    "reachable c A \<Longrightarrow> i < length (issued c) \<Longrightarrow> i \<notin> A \<Longrightarrow>
     issued c ! i = CollectionCreate n \<Longrightarrow>
     reachable (collection_create_then c n err) (insert i A)"
| answered_upsert:
    "reachable c A \<Longrightarrow> i < length (issued c) \<Longrightarrow> i \<notin> A \<Longrightarrow>
     issued c ! i = QueryUpsert h k doc cb \<Longrightarrow>
     reachable (set_then c cb err res) (insert i A)"
| answered_fetch:
    "reachable c A \<Longrightarrow> i < length (issued c) \<Longrightarrow> i \<notin> A \<Longrightarrow>
     issued c ! i = QueryFetch h k cb \<Longrightarrow>
     reachable (get_then c cb err cur) (insert i A)"
| answered_next:
    "reachable c A \<Longrightarrow> i < length (issued c) \<Longrightarrow> i \<notin> A \<Longrightarrow>
     issued c ! i = CursorNext cur cb \<Longrightarrow>
     reachable (snd (next_then c cb err record)) (insert i A)"
| answered_remove:
    "reachable c A \<Longrightarrow> i < length (issued c) \<Longrightarrow> i \<notin> A \<Longrightarrow>
     issued c ! i = QueryRemove k h cb \<Longrightarrow>
     reachable (delete_then c cb err) (insert i A)"

text \<open>
  The invariant of the provisioning of the collection \<open>n\<close>: its existence check has been
  sent at most once, and only with the cache answering for \<open>n\<close>; its creation has been
  requested at most once, and only after an answer to the existence check.
\<close>

definition provisioned_once :: "connector \<Rightarrow> nat set \<Rightarrow> string \<Rightarrow> bool" where
  "provisioned_once c A n =
     (count_list (issued c) (CollectionGet n) \<le> 1 \<and>
      (CollectionGet n \<in> set (issued c) \<longrightarrow> collections_lookup c n \<noteq> None) \<and>
      count_list (issued c) (CollectionCreate n) \<le> 1 \<and>
      (CollectionCreate n \<in> set (issued c) \<longrightarrow>
         (\<exists>i\<in>A. i < length (issued c) \<and> issued c ! i = CollectionGet n)))"

section \<open>Concrete inputs\<close>

text \<open>
  The options of the README (a delimiter \<^verbatim>\<open>/\<close>) and the options of the test file of the
  repository (no \<^verbatim>\<open>splitChar\<close>); the value that the test file sets; a store in which the
  database and both collections exist already.
\<close>

definition opts_slash :: options where
  "opts_slash =
     \<lparr>databaseURL = None, databaseName = None, username = None, password = None,
      defaultCollection = None, splitChar = Some ''/''\<rparr>"

definition opts_plain :: options where
  "opts_plain =
     \<lparr>databaseURL = None, databaseName = None, username = None, password = None,
      defaultCollection = None, splitChar = None\<rparr>"

definition wolfram :: json where
  "wolfram =
     JObj (fmupd ''_d'' (JObj (fmupd ''v'' (JNum 10) fmempty))
            (fmupd ''firstname'' (JStr ''Wolfram'') fmempty))"

definition listed :: json where
  "listed =
     JObj (fmupd ''_d'' (JArr [JNum 3, JNum 1, JNum 2]) (fmupd ''_v'' (JNum 1) fmempty))"

definition provisioned :: store where
  "provisioned =
     \<lparr>databases = [''deepstream''],
      colls = fmupd ''user'' fmempty (fmupd ''deepstream_docs'' fmempty fmempty)\<rparr>"

text \<open>A payload that uses the reserved name \<^verbatim>\<open>__ds\<close>, and what comes back for it.\<close>

definition reserved_payload :: json where
  "reserved_payload =
     JObj (fmupd ''_d'' (JObj (fmupd ''__ds'' (JNum 1) fmempty))
            (fmupd ''_v'' (JNum 7) fmempty))"

definition reserved_stored :: object where
  "reserved_stored = fmupd ''__ds'' (JObj (fmupd ''_v'' (JNum 7) fmempty)) fmempty"

definition reserved_returned :: json where
  "reserved_returned = JObj (fmupd ''_d'' (JObj fmempty) (fmupd ''_v'' (JNum 7) fmempty))"

text \<open>
  The scenario of the test file, on the default collection: a read of a missing key, a
  write, a read, a delete, a read; each call is made when the store has answered
  everything before.
\<close>

definition test_scenario :: world where
  "test_scenario =
     run 9 (call (run 9 (call (run 9 (call (run 9 (call (run 9 (call
       (run 9 (boot opts_plain provisioned))
       (\<lambda>c. Connector_get c ''impossibleMissingValue'' 1)))
       (\<lambda>c. Connector_set c ''someValue'' wolfram 2)))
       (\<lambda>c. Connector_get c ''someValue'' 3)))
       (\<lambda>c. Connector_delete c ''someValue'' 4)))
       (\<lambda>c. Connector_get c ''someValue'' 5))"

text \<open>The same write and read with the key \<^verbatim>\<open>user/abc\<close> and the delimiter \<^verbatim>\<open>/\<close>.\<close>

definition delimiter_scenario :: world where
  "delimiter_scenario =
     run 9 (call (run 9 (call
       (run 9 (boot opts_slash provisioned))
       (\<lambda>c. Connector_set c ''user/abc'' wolfram 1)))
       (\<lambda>c. Connector_get c ''user/abc'' 2))"

section \<open>Basic facts\<close>

lemma fmupd_fmdrop_same: "fmlookup m k = Some x \<Longrightarrow> fmupd k x (fmdrop k m) = m"
  by (rule fmap_ext) auto

lemma indexOf_absent: "d \<notin> set k \<Longrightarrow> indexOf k [d] = - 1"
  by (induction k) (auto simp: Let_def)

lemma indexOf_first:
  "i < length k \<Longrightarrow> k ! i = d \<Longrightarrow> (\<forall>j<i. k ! j \<noteq> d) \<Longrightarrow> indexOf k [d] = int i"
proof (induction k arbitrary: i)
  case Nil
  then show ?case by simp
next
  case (Cons c cs)
  show ?case
  proof (cases i)
    case 0
    then show ?thesis using Cons.prems by simp
  next
    case (Suc n)
    have "c \<noteq> d" using Cons.prems(3) Suc by auto
    moreover have "indexOf cs [d] = int n"
      using Cons.prems Suc by (intro Cons.IH) auto
    ultimately show ?thesis using Suc by (simp add: Let_def)
  qed
qed

lemma indexOf_self: "s \<noteq> [] \<Longrightarrow> indexOf s s = 0"
  by (cases s) auto

lemma step_idle: "answered w = length (issued (conn w)) \<Longrightarrow> step w = w"
  by (simp add: step_def)

lemma run_quiescent: "quiescent w \<Longrightarrow> run n w = w"
  by (induction n) (simp_all add: quiescent_def step_idle)

lemma getParams_null: "fst (Connector_getParams c key) = None \<Longrightarrow> Connector_getParams c key = (None, c)"
  by (auto simp: Connector_getParams_def split: option.splits prod.splits)

lemma getParams_null_iff: "(fst (Connector_getParams c key) = None) = (getParams_names c key = None)"
  by (auto simp: Connector_getParams_def split: option.splits prod.splits)

lemma getParams_of_names:
  "getParams_names c key = Some (n, i) \<Longrightarrow>
   fst (Connector_getParams c key) =
     Some \<lparr>params_collection = fst (Connector_getCollection c n), params_id = i\<rparr>"
  by (simp add: Connector_getParams_def split: prod.splits)

lemma constructor_splitChar:
  "this_splitChar (Connector_constructor (opts\<lparr>splitChar := Some (d # ds)\<rparr>)) = Some (d # ds) \<and>
   this_splitChar (Connector_constructor (opts\<lparr>splitChar := None\<rparr>)) = None \<and>
   this_splitChar (Connector_constructor (opts\<lparr>splitChar := Some []\<rparr>)) = None"
  by (simp add: Connector_constructor_def)

section \<open>The envelope transformer\<close>

text \<open>
  C10. \<^verbatim>\<open>transformValueForStorage\<close> is partial: on every input whose \<^verbatim>\<open>_d\<close> is absent or
  holds a primitive value (neither an object nor an array) it throws a \<^verbatim>\<open>TypeError\<close>, and
  it returns a storage document exactly when \<^verbatim>\<open>_d\<close> holds an object or an array.
\<close>

theorem transformValueForStorage_partial:
  "(transformValueForStorage v = Inl TypeError) =
     (case field v ''_d'' of None \<Rightarrow> True | Some d \<Rightarrow> \<not> is_object d \<and> \<not> is_array d) \<and>
   ((\<exists>s. transformValueForStorage v = Inr s) =
     (\<exists>d. field v ''_d'' = Some d \<and> (is_object d \<or> is_array d)))"
  by (cases v)
     (auto simp: transformValueForStorage_def Let_def split: option.splits json.splits)

theorem transformValueForStorage_partial_witness:
  "field (JObj (fmupd ''_d'' (JNum 5) fmempty)) ''_d'' = Some (JNum 5) \<and>
   transformValueForStorage (JObj (fmupd ''_d'' (JNum 5) fmempty)) = Inl TypeError \<and>
   field (JObj (fmupd ''_v'' (JNum 1) fmempty)) ''_d'' = None \<and>
   transformValueForStorage (JObj (fmupd ''_v'' (JNum 1) fmempty)) = Inl TypeError \<and>
   (\<exists>s. transformValueForStorage wolfram = Inr s)"
  using transformValueForStorage_partial [of "JObj (fmupd ''_d'' (JNum 5) fmempty)"]
        transformValueForStorage_partial [of "JObj (fmupd ''_v'' (JNum 1) fmempty)"]
        transformValueForStorage_partial [of wolfram]
  by (simp add: wolfram_def)

text \<open>
  C2, as the claim states it, fails: an object payload that has a property \<^verbatim>\<open>__ds\<close> loses
  it, because the metadata is stored under that name.
\<close>

theorem transform_roundtrip_counterexample:
  "transformValueForStorage reserved_payload = Inr reserved_stored \<and>
   transformValueFromStorage reserved_stored = Inr (Plain reserved_returned) \<and>
   reserved_returned \<noteq> reserved_payload"
  by code_simp

text \<open>
  The way back undoes the way there when the payload keeps clear of the reserved names.
\<close>

lemma fromStorage_toStorage:
  assumes "field v ''_d'' = Some d" and "reserved_free d"
  shows "\<exists>s. transformValueForStorage v = Inr s \<and>
             transformValueFromStorage s = Inr (Plain v)"
proof -
  obtain m where v: "v = JObj m" and md: "fmlookup m ''_d'' = Some d"
    using assms(1) by (cases v) auto
  have restore: "fmupd ''_d'' d (fmdrop ''_d'' m) = m"
    using md by (rule fmupd_fmdrop_same)
  show ?thesis
  proof (cases d)
    case (JArr xs)
    then show ?thesis
      using v md restore
      by (simp add: transformValueForStorage_def transformValueFromStorage_def Let_def)
  next
    case (JObj p)
    have absent: "fmlookup p ''__ds'' = None" "fmlookup p ''_key'' = None"
      "fmlookup p ''_rev'' = None" "fmlookup p ''_id'' = None"
      using assms(2) JObj by (simp_all add: reserved_free_def)
    have no_list: "fmlookup p ''__dsList'' \<noteq> Some (JArr xs)" for xs
      using assms(2) JObj by (auto simp add: reserved_free_def)
    have payload:
      "fmdrop ''_id'' (fmdrop ''_rev'' (fmdrop ''_key'' (fmdrop ''__ds''
         (fmupd ''__ds'' (JObj (fmdrop ''_d'' m)) p)))) = p"
      using absent by (intro fmap_ext) auto
    show ?thesis
      using v md JObj no_list restore
      by (simp add: transformValueForStorage_def transformValueFromStorage_def Let_def
            payload split: option.splits json.splits)
  qed (use assms(2) in \<open>simp_all add: reserved_free_def\<close>)
qed

text \<open>
  C2, amended. For every JSON object \<open>v\<close> whose \<^verbatim>\<open>_d\<close> holds an array, or an object that
  has no property named \<^verbatim>\<open>__ds\<close>, \<^verbatim>\<open>_key\<close>, \<^verbatim>\<open>_rev\<close> or \<^verbatim>\<open>_id\<close> and no array under
  \<^verbatim>\<open>__dsList\<close>, and with arbitrary sibling metadata fields,
  \<^verbatim>\<open>transformValueFromStorage(transformValueForStorage(v))\<close> is deeply equal to \<open>v\<close>,
  the order of array elements included.
\<close>

theorem transform_roundtrip_reserved_free:
  assumes "field v ''_d'' = Some d" and "reserved_free d"
  shows "\<exists>s. transformValueForStorage v = Inr s \<and>
             transformValueFromStorage s = Inr (Plain v)"
  using assms by (rule fromStorage_toStorage)

theorem transform_roundtrip_reserved_free_witness:
  "field wolfram ''_d'' = Some (JObj (fmupd ''v'' (JNum 10) fmempty)) \<and>
   reserved_free (JObj (fmupd ''v'' (JNum 10) fmempty)) \<and>
   (\<exists>s. transformValueForStorage wolfram = Inr s \<and>
        transformValueFromStorage s = Inr (Plain wolfram)) \<and>
   field listed ''_d'' = Some (JArr [JNum 3, JNum 1, JNum 2]) \<and>
   reserved_free (JArr [JNum 3, JNum 1, JNum 2]) \<and>
   (\<exists>s. transformValueForStorage listed = Inr s \<and>
        transformValueFromStorage s = Inr (Plain listed))"
proof -
  have o1: "field wolfram ''_d'' = Some (JObj (fmupd ''v'' (JNum 10) fmempty))"
    by (simp add: wolfram_def)
  have o2: "reserved_free (JObj (fmupd ''v'' (JNum 10) fmempty))"
    by (simp add: reserved_free_def)
  have a1: "field listed ''_d'' = Some (JArr [JNum 3, JNum 1, JNum 2])"
    by (simp add: listed_def)
  have a2: "reserved_free (JArr [JNum 3, JNum 1, JNum 2])"
    by (simp add: reserved_free_def)
  show ?thesis
    using transform_roundtrip_reserved_free [OF o1 o2]
          transform_roundtrip_reserved_free [OF a1 a2] o1 o2 a1 a2
    by simp
qed

section \<open>The key router\<close>

text \<open>
  C3. With a single-character delimiter \<open>d\<close> configured: if \<open>d\<close> does not occur in the
  key, the collection is the default collection and the document id is the key; if the
  first occurrence of \<open>d\<close> is at an index \<open>i > 0\<close>, the collection is the key before
  \<open>i\<close> and the document id is the key after \<open>i\<close>, later occurrences of \<open>d\<close> included;
  if \<open>d\<close> is at index \<open>0\<close>, routing fails.
\<close>

theorem getParams_single_char_delimiter:
  assumes "this_splitChar c = Some [d]"
  shows "(d \<notin> set k \<longrightarrow> getParams_names c k = Some (this_defaultCollection c, k)) \<and>
         (0 < i \<and> i < length k \<and> k ! i = d \<and> (\<forall>j<i. k ! j \<noteq> d) \<longrightarrow>
            getParams_names c k = Some (take i k, drop (i + 1) k)) \<and>
         (k \<noteq> [] \<and> k ! 0 = d \<longrightarrow> getParams_names c k = None)"
proof (intro conjI impI)
  assume "d \<notin> set k"
  then show "getParams_names c k = Some (this_defaultCollection c, k)"
    using assms by (simp add: getParams_names_def indexOf_absent)
next
  assume first: "0 < i \<and> i < length k \<and> k ! i = d \<and> (\<forall>j<i. k ! j \<noteq> d)"
  then have "indexOf k [d] = int i"
    by (simp add: indexOf_first)
  then show "getParams_names c k = Some (take i k, drop (i + 1) k)"
    using assms first by (simp add: getParams_names_def)
next
  assume "k \<noteq> [] \<and> k ! 0 = d"
  then have "indexOf k [d] = 0"
    by (cases k) auto
  then show "getParams_names c k = None"
    using assms by (simp add: getParams_names_def)
qed

theorem getParams_single_char_delimiter_witness:
  "this_splitChar (Connector_constructor opts_slash) = Some ''/'' \<and>
   getParams_names (Connector_constructor opts_slash) ''abc123'' =
     Some (''deepstream_docs'', ''abc123'') \<and>
   getParams_names (Connector_constructor opts_slash) ''user/a/b'' = Some (''user'', ''a/b'') \<and>
   getParams_names (Connector_constructor opts_slash) ''/user'' = None"
proof -
  have sl: "this_splitChar (Connector_constructor opts_slash) = Some ''/''"
    by (simp add: Connector_constructor_def opts_slash_def)
  have dc: "this_defaultCollection (Connector_constructor opts_slash) = ''deepstream_docs''"
    by (simp add: Connector_constructor_def opts_slash_def)
  have 1: "CHR ''/'' \<notin> set ''abc123''"
    by simp
  have 2: "0 < (4::nat) \<and> 4 < length ''user/a/b'' \<and> ''user/a/b'' ! 4 = CHR ''/'' \<and>
           (\<forall>j<4. ''user/a/b'' ! j \<noteq> CHR ''/'')"
    by (simp add: numeral_eq_Suc All_less_Suc)
  have 3: "''/user'' \<noteq> [] \<and> ''/user'' ! 0 = CHR ''/''"
    by simp
  show ?thesis
    using getParams_single_char_delimiter [OF sl, of "''abc123''" 4]
          getParams_single_char_delimiter [OF sl, of "''user/a/b''" 4]
          getParams_single_char_delimiter [OF sl, of "''/user''" 4] 1 2 3 dc sl
    by simp
qed

text \<open>
  C4 says that without a \<^verbatim>\<open>splitChar\<close> routing never fails and always gives the default
  collection and the whole key. The code calls \<^verbatim>\<open>key.indexOf( null )\<close>, which searches
  for the text \<^verbatim>\<open>null\<close>: the key \<^verbatim>\<open>null\<close> is refused as invalid, and the key
  \<^verbatim>\<open>xnull\<close> goes to a collection \<^verbatim>\<open>x\<close> with the document id \<^verbatim>\<open>ull\<close>.
\<close>

theorem getParams_without_splitChar_null_key:
  "this_splitChar (Connector_constructor opts_plain) = None \<and>
   getParams_names (Connector_constructor opts_plain) ''null'' = None \<and>
   Connector_get (Connector_constructor opts_plain) ''null'' 1 =
     (None, invoke (Connector_constructor opts_plain) 1 (Str ''Invalid key null'') Undefined) \<and>
   getParams_names (Connector_constructor opts_plain) ''xnull'' = Some (''x'', ''ull'')"
  by code_simp

text \<open>
  C5, as the claim states it, fails for the empty key: the delimiter is not found in it,
  so it is routed to the default collection with the empty document id.
\<close>

theorem getParams_empty_key_counterexample:
  "getParams_names (Connector_constructor opts_slash) [] = Some (''deepstream_docs'', []) \<and>
   fst (Connector_getParams (Connector_constructor opts_slash) []) =
     Some \<lparr>params_collection = Handle ''deepstream_docs'', params_id = []\<rparr>"
  by code_simp

text \<open>
  C5, amended. With a delimiter configured, routing a key equal to the delimiter alone
  fails with InvalidKey (the delimiter is at position 0); routing the empty key does not
  fail: it yields the default collection and the empty document id.
\<close>

theorem getParams_delimiter_alone_and_empty_key:
  assumes "this_splitChar c = Some s" and "s \<noteq> []"
  shows "getParams_names c s = None \<and>
         getParams_names c [] = Some (this_defaultCollection c, [])"
  using assms by (simp add: getParams_names_def indexOf_self)

theorem getParams_delimiter_alone_and_empty_key_witness:
  "this_splitChar (Connector_constructor opts_slash) = Some ''/'' \<and> ''/'' \<noteq> [] \<and>
   getParams_names (Connector_constructor opts_slash) ''/'' = None \<and>
   getParams_names (Connector_constructor opts_slash) [] = Some (''deepstream_docs'', [])"
proof -
  have sl: "this_splitChar (Connector_constructor opts_slash) = Some ''/''"
    by (simp add: Connector_constructor_def opts_slash_def)
  have dc: "this_defaultCollection (Connector_constructor opts_slash) = ''deepstream_docs''"
    by (simp add: Connector_constructor_def opts_slash_def)
  have ne: "''/'' \<noteq> []"
    by simp
  show ?thesis
    using getParams_delimiter_alone_and_empty_key [OF sl ne] sl dc by simp
qed

section \<open>The operations of the connector\<close>

text \<open>
  C7. For every key on which routing fails, each of \<^verbatim>\<open>set\<close>, \<^verbatim>\<open>get\<close> and \<^verbatim>\<open>delete\<close>
  calls its callback at once with the error \<^verbatim>\<open>Invalid key\<close> followed by the key, throws
  nothing, and sends nothing to the store: the connector afterwards differs from the
  connector before in the recorded callback only, and where the store had answered
  everything before, its state stays what it was however long the world runs.
\<close>

theorem invalid_key_no_io:
  assumes "fst (Connector_getParams (conn w) key) = None"
  shows "Connector_set (conn w) key v cb =
           (None, (conn w)\<lparr>invoked := invoked (conn w) @
              [(cb, Str (''Invalid key '' @ key), Undefined)]\<rparr>) \<and>
         Connector_get (conn w) key cb =
           (None, (conn w)\<lparr>invoked := invoked (conn w) @
              [(cb, Str (''Invalid key '' @ key), Undefined)]\<rparr>) \<and>
         Connector_delete (conn w) key cb =
           (None, (conn w)\<lparr>invoked := invoked (conn w) @
              [(cb, Str (''Invalid key '' @ key), Undefined)]\<rparr>) \<and>
         issued (snd (Connector_set (conn w) key v cb)) = issued (conn w) \<and>
         issued (snd (Connector_get (conn w) key cb)) = issued (conn w) \<and>
         issued (snd (Connector_delete (conn w) key cb)) = issued (conn w) \<and>
         (quiescent w \<longrightarrow>
            db (run n (call w (\<lambda>c. Connector_set c key v cb))) = db w \<and>
            db (run n (call w (\<lambda>c. Connector_get c key cb))) = db w \<and>
            db (run n (call w (\<lambda>c. Connector_delete c key cb))) = db w)"
proof -
  let ?c = "(conn w)\<lparr>invoked := invoked (conn w) @
              [(cb, Str (''Invalid key '' @ key), Undefined)]\<rparr>"
  have ops: "Connector_set (conn w) key v cb = (None, ?c)"
    "Connector_get (conn w) key cb = (None, ?c)"
    "Connector_delete (conn w) key cb = (None, ?c)"
    using getParams_null [OF assms]
    by (simp_all add: Connector_set_def Connector_get_def Connector_delete_def invoke_def)
  have calls: "call w (\<lambda>c. Connector_set c key v cb) = w\<lparr>conn := ?c\<rparr>"
    "call w (\<lambda>c. Connector_get c key cb) = w\<lparr>conn := ?c\<rparr>"
    "call w (\<lambda>c. Connector_delete c key cb) = w\<lparr>conn := ?c\<rparr>"
    using ops by (simp_all add: call_def)
  have "run n (w\<lparr>conn := ?c\<rparr>) = w\<lparr>conn := ?c\<rparr>" if "quiescent w"
    using that by (intro run_quiescent) (simp add: quiescent_def)
  then show ?thesis
    using ops calls by simp
qed

theorem invalid_key_no_io_witness:
  "fst (Connector_getParams (conn (run 9 (boot opts_slash provisioned))) ''/x'') = None \<and>
   quiescent (run 9 (boot opts_slash provisioned)) \<and>
   invoked (snd (Connector_set (conn (run 9 (boot opts_slash provisioned))) ''/x'' wolfram 1)) =
     [(1, Str ''Invalid key /x'', Undefined)] \<and>
   invoked (snd (Connector_get (conn (run 9 (boot opts_slash provisioned))) ''/x'' 1)) =
     [(1, Str ''Invalid key /x'', Undefined)] \<and>
   invoked (snd (Connector_delete (conn (run 9 (boot opts_slash provisioned))) ''/x'' 1)) =
     [(1, Str ''Invalid key /x'', Undefined)] \<and>
   issued (snd (Connector_set (conn (run 9 (boot opts_slash provisioned))) ''/x'' wolfram 1)) =
     [ListUserDatabases] \<and>
   db (run 3 (call (run 9 (boot opts_slash provisioned))
        (\<lambda>c. Connector_set c ''/x'' wolfram 1))) = provisioned"
proof -
  have bad: "fst (Connector_getParams (conn (run 9 (boot opts_slash provisioned))) ''/x'') = None"
    by code_simp
  have q: "quiescent (run 9 (boot opts_slash provisioned))"
    by code_simp
  have fresh: "invoked (conn (run 9 (boot opts_slash provisioned))) = [] \<and>
               issued (conn (run 9 (boot opts_slash provisioned))) = [ListUserDatabases] \<and>
               db (run 9 (boot opts_slash provisioned)) = provisioned"
    by code_simp
  show ?thesis
    using invalid_key_no_io [OF bad, of wolfram 1 3] bad q fresh
    by simp
qed

text \<open>
  C6, as the claim states it, fails: when the store reports an error on the query of
  \<^verbatim>\<open>get\<close>, the callback is called with that error and \<^verbatim>\<open>null\<close>, not with
  \<^verbatim>\<open>(null, null)\<close>.
\<close>

theorem get_query_error_counterexample:
  "invoked (get_then (snd (Connector_get (Connector_constructor opts_slash) ''abc'' 7)) 7
              (Some ''boom'') []) = [(7, Error ''boom'', Null)]"
  by code_simp

text \<open>
  C6, amended. For every key that routes successfully, \<^verbatim>\<open>get\<close> sends one point query.
  If the store reports an error on that query, \<^verbatim>\<open>get\<close> calls its callback with that
  error and \<^verbatim>\<open>null\<close>: the fault is propagated. If the query succeeds, the cursor is
  read; if that read reports an error or gives no record, \<^verbatim>\<open>get\<close> calls its callback
  with \<^verbatim>\<open>(null, null)\<close>: a missing key is not an error, and a fault of the cursor read
  is collapsed into the same result.
\<close>

theorem get_store_answers:
  assumes "Connector_getParams c key = (Some p, c')"
  shows "Connector_get c key cb = (None, issue c' (QueryFetch (params_collection p) key cb)) \<and>
         get_then c2 cb (Some e) cur = invoke c2 cb (Error e) Null \<and>
         get_then c2 cb None cur = issue c2 (CursorNext cur cb) \<and>
         (err \<noteq> None \<or> record = None \<longrightarrow>
            next_then c3 cb err record = (None, invoke c3 cb Null Null))"
  using assms by (simp add: Connector_get_def get_then_def next_then_def)

theorem get_store_answers_witness:
  "Connector_getParams (Connector_constructor opts_plain) ''someValue'' =
     (Some \<lparr>params_collection = Handle ''deepstream_docs'', params_id = ''someValue''\<rparr>,
      snd (Connector_getParams (Connector_constructor opts_plain) ''someValue'')) \<and>
   Connector_get (Connector_constructor opts_plain) ''someValue'' 3 =
     (None, issue (snd (Connector_getParams (Connector_constructor opts_plain) ''someValue''))
              (QueryFetch (Handle ''deepstream_docs'') ''someValue'' 3)) \<and>
   next_then (Connector_constructor opts_plain) 3 None None =
     (None, invoke (Connector_constructor opts_plain) 3 Null Null) \<and>
   next_then (Connector_constructor opts_plain) 3 (Some ''boom'') (Some fmempty) =
     (None, invoke (Connector_constructor opts_plain) 3 Null Null)"
proof -
  have "fst (Connector_getParams (Connector_constructor opts_plain) ''someValue'') =
          Some \<lparr>params_collection = Handle ''deepstream_docs'', params_id = ''someValue''\<rparr>"
    by code_simp
  then have routed:
    "Connector_getParams (Connector_constructor opts_plain) ''someValue'' =
       (Some \<lparr>params_collection = Handle ''deepstream_docs'', params_id = ''someValue''\<rparr>,
        snd (Connector_getParams (Connector_constructor opts_plain) ''someValue''))"
    by (simp add: prod_eq_iff)
  show ?thesis
    using get_store_answers [OF routed, of 3 "Connector_constructor opts_plain" "''boom''" "[]"
            "None" "None" "Connector_constructor opts_plain"]
          get_store_answers [OF routed, of 3 "Connector_constructor opts_plain" "''boom''" "[]"
            "Some ''boom''" "Some fmempty" "Connector_constructor opts_plain"]
          routed
    by simp
qed

text \<open>
  C9, as the claim states it, fails: when the creation of a collection fails, no event is
  emitted on the connector; the error goes to \<^verbatim>\<open>console.error\<close>.
\<close>

theorem collection_create_failure_counterexample:
  "emitted (collection_create_then (collection_get_then
      (snd (Connector_set (Connector_constructor opts_slash) ''user/abc'' wolfram 1))
      ''user'' (Some ''not found'')) ''user'' (Some ''boom'')) = [] \<and>
   console_error (collection_create_then (collection_get_then
      (snd (Connector_set (Connector_constructor opts_slash) ''user/abc'' wolfram 1))
      ''user'' (Some ''not found'')) ''user'' (Some ''boom'')) = [''boom'']"
  by code_simp

text \<open>
  C9, amended. A failure of the creation of a collection is never delivered to the
  callback of the \<^verbatim>\<open>set\<close>, \<^verbatim>\<open>get\<close> or \<^verbatim>\<open>delete\<close> call that triggered the provisioning;
  it is written with \<^verbatim>\<open>console.error\<close>, and no event is emitted on the connector and no
  further request is sent.
\<close>

theorem collection_create_failure_console:
  "invoked (collection_create_then c collectionName (Some e)) = invoked c \<and>
   emitted (collection_create_then c collectionName (Some e)) = emitted c \<and>
   issued (collection_create_then c collectionName (Some e)) = issued c \<and>
   console_error (collection_create_then c collectionName (Some e)) = console_error c @ [e]"
  by (simp add: collection_create_then_def)

section \<open>The collection cache\<close>

text \<open>
  For a name that the cache does not answer yet, \<^verbatim>\<open>_getCollection\<close> installs the handle
  and sends the existence check; for a name that it answers, it returns what it holds and
  sends nothing.
\<close>

lemma getCollection_first_call:
  assumes "collections_lookup c n = None"
  shows "fst (Connector_getCollection c n) = Handle n \<and>
         collections_lookup (snd (Connector_getCollection c n)) n = Some (Handle n) \<and>
         issued (snd (Connector_getCollection c n)) = issued c @ [CollectionGet n]"
  using assms by (simp add: Connector_getCollection_def collections_lookup_def issue_def)

lemma getCollection_later_call:
  assumes "collections_lookup c n = Some h"
  shows "Connector_getCollection c n = (h, c)"
  using assms by (simp add: Connector_getCollection_def)

lemma getCollection_twice:
  "Connector_getCollection (snd (Connector_getCollection c n)) n =
     (fst (Connector_getCollection c n), snd (Connector_getCollection c n))"
proof (cases "collections_lookup c n")
  case None
  then show ?thesis
    using getCollection_first_call [OF None] by (simp add: getCollection_later_call)
next
  case (Some h)
  then show ?thesis
    by (simp add: getCollection_later_call)
qed

text \<open>
  What occurs at most once in a list occurs at one position only.
\<close>

lemma count_le1_unique:
  "count_list xs x \<le> 1 \<Longrightarrow> i < length xs \<Longrightarrow> j < length xs \<Longrightarrow> xs ! i = x \<Longrightarrow> xs ! j = x
   \<Longrightarrow> i = j"
proof (induction xs arbitrary: i j)
  case Nil
  then show ?case by simp
next
  case (Cons y ys)
  have tl: "x \<in> set ys" if "m = Suc m'" "m < length (y # ys)" "(y # ys) ! m = x" for m m'
    using that nth_mem [of m' ys] by auto
  show ?case
  proof (cases "y = x")
    case True
    then have z: "x \<notin> set ys"
      using Cons.prems(1) by (simp add: count_list_0_iff)
    have "i = 0"
      using z tl [of i] Cons.prems by (cases i) auto
    moreover have "j = 0"
      using z tl [of j] Cons.prems by (cases j) auto
    ultimately show ?thesis by simp
  next
    case False
    then obtain i' j' where ij: "i = Suc i'" "j = Suc j'"
      using Cons.prems by (cases i; cases j) auto
    then have "i' = j'"
      using Cons.prems False by (intro Cons.IH) auto
    then show ?thesis using ij by simp
  qed
qed

lemma provisioned_once_neutral:
  assumes "provisioned_once c A n"
    and "issued c' = issued c @ ys"
    and "CollectionGet n \<notin> set ys" and "CollectionCreate n \<notin> set ys"
    and "collections_lookup c n \<noteq> None \<longrightarrow> collections_lookup c' n \<noteq> None"
    and "A \<subseteq> A'"
  shows "provisioned_once c' A' n"
proof -
  have "\<exists>i\<in>A'. i < length (issued c @ ys) \<and> (issued c @ ys) ! i = CollectionGet n"
    if "\<exists>i\<in>A. i < length (issued c) \<and> issued c ! i = CollectionGet n"
    using that assms(6) by (auto simp: nth_append)
  then show ?thesis
    using assms(1-5) by (auto simp: provisioned_once_def count_list_0_iff)
qed

text \<open>
  What the operations and the callbacks add to the requests sent, and to the cache.
\<close>

lemma getParams_effect:
  "snd (Connector_getParams c key) = c \<or>
   (\<exists>m. collections_lookup c m = None \<and>
        snd (Connector_getParams c key) =
          c\<lparr>this_collections := fmupd m (Handle m) (this_collections c),
            issued := issued c @ [CollectionGet m]\<rparr>)"
  by (auto simp: Connector_getParams_def Connector_getCollection_def issue_def
      split: option.splits prod.splits)

lemma provisioned_once_fresh:
  assumes "provisioned_once c A n" and "collections_lookup c m = None"
    and "issued c' = issued c @ CollectionGet m # ys"
    and "this_collections c' = fmupd m (Handle m) (this_collections c)"
    and "CollectionGet n \<notin> set ys" and "CollectionCreate n \<notin> set ys"
  shows "provisioned_once c' A n"
proof -
  have idx: "\<exists>i\<in>A. i < length (issued c') \<and> issued c' ! i = CollectionGet n"
    if "\<exists>i\<in>A. i < length (issued c) \<and> issued c ! i = CollectionGet n"
    using that assms(3) by (auto simp: nth_append)
  have keep: "collections_lookup c' n \<noteq> None" if "collections_lookup c n \<noteq> None"
    using that assms(4) by (auto simp: collections_lookup_def split: option.splits if_splits)
  have inst: "collections_lookup c' m \<noteq> None"
    using assms(4) by (simp add: collections_lookup_def)
  show ?thesis
  proof (cases "n = m")
    case True
    then have "CollectionGet n \<notin> set (issued c)"
      using assms(1,2) by (auto simp: provisioned_once_def)
    then show ?thesis
      using assms(1,3,5,6) True inst idx
      by (auto simp: provisioned_once_def count_list_0_iff)
  next
    case False
    then show ?thesis
      using assms(1,3,5,6) keep idx
      by (auto simp: provisioned_once_def count_list_0_iff)
  qed
qed

lemma provisioned_once_create:
  assumes "provisioned_once c A n" and "i < length (issued c)" and "i \<notin> A"
    and "issued c ! i = CollectionGet n"
  shows "provisioned_once (issue c (CollectionCreate n)) (insert i A) n"
proof -
  have none: "CollectionCreate n \<notin> set (issued c)"
  proof
    assume "CollectionCreate n \<in> set (issued c)"
    then obtain j where j: "j \<in> A" "j < length (issued c)" "issued c ! j = CollectionGet n"
      using assms(1) by (auto simp: provisioned_once_def)
    have "i = j"
      using assms(1,2,4) j by (intro count_le1_unique [of "issued c" "CollectionGet n"])
        (simp_all add: provisioned_once_def)
    then show False
      using assms(3) j(1) by simp
  qed
  have "collections_lookup (issue c (CollectionCreate n)) n = collections_lookup c n"
    by (simp add: collections_lookup_def issue_def)
  moreover have "(issued c @ [CollectionCreate n]) ! i = CollectionGet n"
    using assms(2,4) by (simp add: nth_append)
  ultimately show ?thesis
    using assms(1,2) none
    by (auto simp: provisioned_once_def issue_def count_list_0_iff)
qed

lemma operation_preserves:
  assumes inv: "provisioned_once c A n"
    and q: "CollectionGet n \<notin> set q" "CollectionCreate n \<notin> set q"
    and eff: "(issued c' = issued c @ q \<and> this_collections c' = this_collections c) \<or>
         (\<exists>m. collections_lookup c m = None \<and> issued c' = issued c @ CollectionGet m # q \<and>
              this_collections c' = fmupd m (Handle m) (this_collections c))"
    and sub: "A \<subseteq> A'"
  shows "provisioned_once c' A' n"
  using eff
proof
  assume a: "issued c' = issued c @ q \<and> this_collections c' = this_collections c"
  then have same: "collections_lookup c' n = collections_lookup c n"
    by (simp add: collections_lookup_def)
  show ?thesis
  proof (rule provisioned_once_neutral [of c A n c' q A'])
    show "collections_lookup c n \<noteq> None \<longrightarrow> collections_lookup c' n \<noteq> None"
      using same by simp
  qed (use inv q a sub in simp_all)
next
  assume "\<exists>m. collections_lookup c m = None \<and> issued c' = issued c @ CollectionGet m # q \<and>
              this_collections c' = fmupd m (Handle m) (this_collections c)"
  then obtain m where m: "collections_lookup c m = None"
    "issued c' = issued c @ CollectionGet m # q"
    "this_collections c' = fmupd m (Handle m) (this_collections c)"
    by blast
  have fresh: "provisioned_once c' A n"
    by (rule provisioned_once_fresh [of c A n m c' q]) (use inv q m in simp_all)
  show ?thesis
    by (rule provisioned_once_neutral [of c' A n c' "[]" A']) (use fresh sub in simp_all)
qed

lemma set_effect:
  "\<exists>q. CollectionGet n \<notin> set q \<and> CollectionCreate n \<notin> set q \<and>
     ((issued (snd (Connector_set c key v cb)) = issued c @ q \<and>
       this_collections (snd (Connector_set c key v cb)) = this_collections c) \<or>
      (\<exists>m. collections_lookup c m = None \<and>
           issued (snd (Connector_set c key v cb)) = issued c @ CollectionGet m # q \<and>
           this_collections (snd (Connector_set c key v cb)) =
             fmupd m (Handle m) (this_collections c)))"
proof -
  obtain r c1 where g: "Connector_getParams c key = (r, c1)"
    by (cases "Connector_getParams c key")
  obtain q where q: "CollectionGet n \<notin> set q" "CollectionCreate n \<notin> set q"
    "issued (snd (Connector_set c key v cb)) = issued c1 @ q"
    "this_collections (snd (Connector_set c key v cb)) = this_collections c1"
  proof (cases r)
    case None
    then show ?thesis
      using g that [of "[]"] by (simp add: Connector_set_def invoke_def)
  next
    case (Some p)
    show ?thesis
    proof (cases "transformValueForStorage v")
      case (Inl e)
      then show ?thesis
        using g Some that [of "[]"] by (simp add: Connector_set_def)
    next
      case (Inr doc)
      then show ?thesis
        using g Some
          that [of "[QueryUpsert (params_collection p) (params_id p)
                       (fmupd ''_key'' (JStr (params_id p)) doc) cb]"]
        by (simp add: Connector_set_def issue_def)
    qed
  qed
  show ?thesis
    using getParams_effect [of c key] g q by (intro exI [of _ q]) auto
qed

lemma get_effect:
  "\<exists>q. CollectionGet n \<notin> set q \<and> CollectionCreate n \<notin> set q \<and>
     ((issued (snd (Connector_get c key cb)) = issued c @ q \<and>
       this_collections (snd (Connector_get c key cb)) = this_collections c) \<or>
      (\<exists>m. collections_lookup c m = None \<and>
           issued (snd (Connector_get c key cb)) = issued c @ CollectionGet m # q \<and>
           this_collections (snd (Connector_get c key cb)) =
             fmupd m (Handle m) (this_collections c)))"
proof -
  obtain r c1 where g: "Connector_getParams c key = (r, c1)"
    by (cases "Connector_getParams c key")
  obtain q where q: "CollectionGet n \<notin> set q" "CollectionCreate n \<notin> set q"
    "issued (snd (Connector_get c key cb)) = issued c1 @ q"
    "this_collections (snd (Connector_get c key cb)) = this_collections c1"
  proof (cases r)
    case None
    then show ?thesis
      using g that [of "[]"] by (simp add: Connector_get_def invoke_def)
  next
    case (Some p)
    then show ?thesis
      using g that [of "[QueryFetch (params_collection p) key cb]"]
      by (simp add: Connector_get_def issue_def)
  qed
  show ?thesis
    using getParams_effect [of c key] g q by (intro exI [of _ q]) auto
qed

lemma delete_effect:
  "\<exists>q. CollectionGet n \<notin> set q \<and> CollectionCreate n \<notin> set q \<and>
     ((issued (snd (Connector_delete c key cb)) = issued c @ q \<and>
       this_collections (snd (Connector_delete c key cb)) = this_collections c) \<or>
      (\<exists>m. collections_lookup c m = None \<and>
           issued (snd (Connector_delete c key cb)) = issued c @ CollectionGet m # q \<and>
           this_collections (snd (Connector_delete c key cb)) =
             fmupd m (Handle m) (this_collections c)))"
proof -
  obtain r c1 where g: "Connector_getParams c key = (r, c1)"
    by (cases "Connector_getParams c key")
  obtain q where q: "CollectionGet n \<notin> set q" "CollectionCreate n \<notin> set q"
    "issued (snd (Connector_delete c key cb)) = issued c1 @ q"
    "this_collections (snd (Connector_delete c key cb)) = this_collections c1"
  proof (cases r)
    case None
    then show ?thesis
      using g that [of "[]"] by (simp add: Connector_delete_def invoke_def)
  next
    case (Some p)
    then show ?thesis
      using g that [of "[QueryRemove key (params_collection p) cb]"]
      by (simp add: Connector_delete_def issue_def)
  qed
  show ?thesis
    using getParams_effect [of c key] g q by (intro exI [of _ q]) auto
qed

lemma answer_preserves:
  assumes "provisioned_once c A n"
    and "issued c' = issued c @ q" and "this_collections c' = this_collections c"
    and "CollectionGet n \<notin> set q" and "CollectionCreate n \<notin> set q"
  shows "provisioned_once c' (insert i A) n"
  by (rule operation_preserves [of c A n q c' "insert i A"]) (use assms in auto)

lemma reachable_provisioned_once: "reachable c A \<Longrightarrow> provisioned_once c A n"
proof (induction rule: reachable.induct)
  case (constructed opts)
  show ?case
    by (simp add: provisioned_once_def Connector_constructor_def)
next
  case (called_set c A key v cb)
  obtain q where q: "CollectionGet n \<notin> set q" "CollectionCreate n \<notin> set q"
    "(issued (snd (Connector_set c key v cb)) = issued c @ q \<and>
       this_collections (snd (Connector_set c key v cb)) = this_collections c) \<or>
      (\<exists>m. collections_lookup c m = None \<and>
           issued (snd (Connector_set c key v cb)) = issued c @ CollectionGet m # q \<and>
           this_collections (snd (Connector_set c key v cb)) =
             fmupd m (Handle m) (this_collections c))"
    using set_effect [of n c key v cb] by blast
  show ?case
    by (rule operation_preserves [OF called_set.IH q]) simp
next
  case (called_get c A key cb)
  obtain q where q: "CollectionGet n \<notin> set q" "CollectionCreate n \<notin> set q"
    "(issued (snd (Connector_get c key cb)) = issued c @ q \<and>
       this_collections (snd (Connector_get c key cb)) = this_collections c) \<or>
      (\<exists>m. collections_lookup c m = None \<and>
           issued (snd (Connector_get c key cb)) = issued c @ CollectionGet m # q \<and>
           this_collections (snd (Connector_get c key cb)) =
             fmupd m (Handle m) (this_collections c))"
    using get_effect [of n c key cb] by blast
  show ?case
    by (rule operation_preserves [OF called_get.IH q]) simp
next
  case (called_delete c A key cb)
  obtain q where q: "CollectionGet n \<notin> set q" "CollectionCreate n \<notin> set q"
    "(issued (snd (Connector_delete c key cb)) = issued c @ q \<and>
       this_collections (snd (Connector_delete c key cb)) = this_collections c) \<or>
      (\<exists>m. collections_lookup c m = None \<and>
           issued (snd (Connector_delete c key cb)) = issued c @ CollectionGet m # q \<and>
           this_collections (snd (Connector_delete c key cb)) =
             fmupd m (Handle m) (this_collections c))"
    using delete_effect [of n c key cb] by blast
  show ?case
    by (rule operation_preserves [OF called_delete.IH q]) simp
next
  case (answered_listUserDatabases c A i r)
  note inv = answered_listUserDatabases.IH
  show ?case
  proof (cases r)
    case (Inl err)
    show ?thesis
      by (rule answer_preserves [OF inv, of _ "[]"])
         (simp_all add: Inl listUserDatabases_then_def emit_def)
  next
    case (Inr names)
    show ?thesis
    proof (cases "this_databaseName c \<in> set names")
      case True
      show ?thesis
        by (rule answer_preserves [OF inv, of _ "[]"])
           (simp_all add: Inr True listUserDatabases_then_def useDatabase_then_def emit_def)
    next
      case False
      show ?thesis
        by (rule answer_preserves [OF inv, of _ "[CreateDatabase (this_databaseName c)
              (this_databaseUser c) (this_databasePass c)]"])
           (simp_all add: Inr False listUserDatabases_then_def issue_def)
    qed
  qed
next
  case (answered_createDatabase c A i m u p err)
  note inv = answered_createDatabase.IH
  show ?case
    by (rule answer_preserves [OF inv, of _ "[]"])
       (simp_all add: createDatabase_then_def useDatabase_then_def emit_def
          split: option.splits)
next
  case (answered_collection_get c A i m err)
  note inv = answered_collection_get.IH
  show ?case
  proof (cases err)
    case None
    show ?thesis
      by (rule answer_preserves [OF inv, of _ "[]"])
         (simp_all add: None collection_get_then_def)
  next
    case (Some e)
    show ?thesis
    proof (cases "m = n")
      case True
      have "provisioned_once (issue c (CollectionCreate n)) (insert i A) n"
        by (rule provisioned_once_create [OF inv])
           (use answered_collection_get.hyps True in simp_all)
      then show ?thesis
        by (simp add: Some True collection_get_then_def)
    next
      case False
      show ?thesis
        by (rule answer_preserves [OF inv, of _ "[CollectionCreate m]"])
           (use False in \<open>auto simp: Some collection_get_then_def issue_def\<close>)
    qed
  qed
next
  case (answered_collection_create c A i m err)
  note inv = answered_collection_create.IH
  show ?case
    by (rule answer_preserves [OF inv, of _ "[]"])
       (simp_all add: collection_create_then_def split: option.splits)
next
  case (answered_upsert c A i h k doc cb err res)
  note inv = answered_upsert.IH
  show ?case
    by (rule answer_preserves [OF inv, of _ "[]"])
       (simp_all add: set_then_def invoke_def split: option.splits)
next
  case (answered_fetch c A i h k cb err cur)
  note inv = answered_fetch.IH
  show ?case
  proof (cases err)
    case None
    show ?thesis
      by (rule answer_preserves [OF inv, of _ "[CursorNext cur cb]"])
         (simp_all add: None get_then_def issue_def)
  next
    case (Some e)
    show ?thesis
      by (rule answer_preserves [OF inv, of _ "[]"])
         (simp_all add: Some get_then_def invoke_def)
  qed
next
  case (answered_next c A i cur cb err rcd)
  note inv = answered_next.IH
  show ?case
    by (rule answer_preserves [OF inv, of _ "[]"])
       (simp_all add: next_then_def invoke_def split: sum.splits)
next
  case (answered_remove c A i k h cb err)
  note inv = answered_remove.IH
  show ?case
    by (rule answer_preserves [OF inv, of _ "[]"])
       (simp_all add: delete_then_def invoke_def split: option.splits)
qed

text \<open>
  In every state that the connector can reach, for every collection name at most one
  existence check and at most one creation request have been sent to the store.
\<close>

lemma at_most_one_creation_request:
  assumes "reachable c A"
  shows "count_list (issued c) (CollectionGet n) \<le> 1 \<and>
         count_list (issued c) (CollectionCreate n) \<le> 1"
  using reachable_provisioned_once [OF assms, of n] by (simp add: provisioned_once_def)

text \<open>
  C8 says that for every collection name the first \<^verbatim>\<open>_getCollection\<close> call installs the
  handle in the cache. The cache is the object \<^verbatim>\<open>{}\<close>, and for the name
  \<^verbatim>\<open>constructor\<close> the test \<^verbatim>\<open>!this._collections[ collectionName ]\<close> finds the inherited
  \<^verbatim>\<open>Object.prototype.constructor\<close>: nothing is installed, no existence check is sent, and
  what is returned, and used as the collection of the query, is not a collection handle.
\<close>

theorem getCollection_inherited_name:
  "Connector_getCollection (Connector_constructor opts_slash) ''constructor'' =
     (Inherited ''constructor'', Connector_constructor opts_slash) \<and>
   this_collections (snd (Connector_set (Connector_constructor opts_slash)
      ''constructor/x'' wolfram 1)) = fmempty \<and>
   issued (snd (Connector_set (Connector_constructor opts_slash) ''constructor/x'' wolfram 1)) =
     [ListUserDatabases,
      QueryUpsert (Inherited ''constructor'') ''x''
        (fmupd ''_key'' (JStr ''x'') (fmupd ''__ds''
           (JObj (fmupd ''firstname'' (JStr ''Wolfram'') fmempty))
           (fmupd ''v'' (JNum 10) fmempty))) 1]"
  by code_simp

section \<open>Whole scenarios\<close>

text \<open>How the world moves: a step answers the oldest open request.\<close>

lemma step_open:
  "answered w = length xs \<Longrightarrow> issued (conn w) = xs @ r # rest \<Longrightarrow>
   step w = answer (w\<lparr>answered := Suc (length xs)\<rparr>) r"
  by (simp add: step_def)

lemma run_2: "run 2 w = step (step w)"
  by (simp add: numeral_2_eq_2)

lemma getParams_cached:
  "getParams_names c key = Some (coll, i) \<Longrightarrow> collections_lookup c coll = Some h \<Longrightarrow>
   Connector_getParams c key = (Some \<lparr>params_collection = h, params_id = i\<rparr>, c)"
  by (simp add: Connector_getParams_def Connector_getCollection_def)

lemma getParams_fresh:
  "getParams_names c key = Some (coll, i) \<Longrightarrow> collections_lookup c coll = None \<Longrightarrow>
   Connector_getParams c key =
     (Some \<lparr>params_collection = Handle coll, params_id = i\<rparr>,
      c\<lparr>this_collections := fmupd coll (Handle coll) (this_collections c),
        issued := issued c @ [CollectionGet coll]\<rparr>)"
  by (simp add: Connector_getParams_def Connector_getCollection_def issue_def)

lemma collections_lookup_cong:
  "this_collections c' = this_collections c \<Longrightarrow>
   collections_lookup c' n = collections_lookup c n"
  by (simp add: collections_lookup_def)

lemma getParams_names_cong:
  "this_splitChar c' = this_splitChar c \<Longrightarrow>
   this_defaultCollection c' = this_defaultCollection c \<Longrightarrow>
   getParams_names c' key = getParams_names c key"
  by (simp add: getParams_names_def Let_def)

lemma call_set:
  "Connector_getParams (conn w) key = (Some p, c') \<Longrightarrow>
   transformValueForStorage v = Inr s \<Longrightarrow>
   call w (\<lambda>c. Connector_set c key v cb) =
     w\<lparr>conn := c'\<lparr>issued := issued c' @
        [QueryUpsert (params_collection p) (params_id p)
           (fmupd ''_key'' (JStr (params_id p)) s) cb]\<rparr>\<rparr>"
  by (simp add: call_def Connector_set_def issue_def)

lemma call_get:
  "Connector_getParams (conn w) key = (Some p, c') \<Longrightarrow>
   call w (\<lambda>c. Connector_get c key cb) =
     w\<lparr>conn := c'\<lparr>issued := issued c' @ [QueryFetch (params_collection p) key cb]\<rparr>\<rparr>"
  by (simp add: call_def Connector_get_def issue_def)

text \<open>The answers of the reference store where the collection exists.\<close>

lemma answer_CollectionGet_exists:
  "fmlookup (colls (db w)) coll = Some docs \<Longrightarrow> answer w (CollectionGet coll) = w"
  by (simp add: answer_def store_collection_get_def collection_get_then_def Let_def)

lemma answer_QueryUpsert_exists:
  "fmlookup (colls (db w)) coll = Some docs \<Longrightarrow>
   answer w (QueryUpsert (Handle coll) k doc cb) =
     w\<lparr>conn := (conn w)\<lparr>invoked := invoked (conn w) @ [(cb, Null, TrueV)]\<rparr>,
       db := (db w)\<lparr>colls := fmupd coll (fmupd k doc docs) (colls (db w))\<rparr>\<rparr>"
  by (simp add: answer_def store_upsert_def set_then_def invoke_def Let_def)

lemma answer_QueryFetch_found:
  "fmlookup (colls (db w)) coll = Some docs \<Longrightarrow> fmlookup docs k = Some doc \<Longrightarrow>
   answer w (QueryFetch (Handle coll) k cb) =
     w\<lparr>conn := (conn w)\<lparr>issued := issued (conn w) @
        [CursorNext [fmupd ''_id'' (JStr (coll @ ''/'' @ k))
                       (fmupd ''_rev'' (JStr ''_rev'') doc)] cb]\<rparr>\<rparr>"
  by (simp add: answer_def store_fetch_def get_then_def issue_def Let_def)

lemma answer_CursorNext_record:
  "transformValueFromStorage r = Inr x \<Longrightarrow>
   answer w (CursorNext [r] cb) =
     w\<lparr>conn := (conn w)\<lparr>invoked := invoked (conn w) @ [(cb, Null, Value x)]\<rparr>\<rparr>"
  by (simp add: answer_def next_then_def invoke_def Let_def)

text \<open>The bookkeeping fields of the store do not reach the caller.\<close>

lemma fromStorage_bookkeeping:
  "transformValueFromStorage (fmupd ''_id'' a (fmupd ''_rev'' b (fmupd ''_key'' k s))) =
   transformValueFromStorage s"
proof -
  have "fmdrop ''_id'' (fmdrop ''_rev'' (fmdrop ''_key'' (fmdrop ''__ds''
          (fmupd ''_id'' a (fmupd ''_rev'' b (fmupd ''_key'' k s)))))) =
        fmdrop ''_id'' (fmdrop ''_rev'' (fmdrop ''_key'' (fmdrop ''__ds'' s)))"
    by (intro fmap_ext) auto
  then show ?thesis
    by (simp add: transformValueFromStorage_def)
qed

text \<open>
  A \<^verbatim>\<open>set\<close> on an existing collection, whose handle is cached already or not, and the
  two steps that answer it.
\<close>

lemma set_drained_cached:
  assumes q: "quiescent w"
    and r: "getParams_names (conn w) key = Some (coll, i)"
    and c: "collections_lookup (conn w) coll = Some (Handle coll)"
    and e: "fmlookup (colls (db w)) coll = Some docs"
    and t: "transformValueForStorage v = Inr s"
  shows "run 2 (call w (\<lambda>c. Connector_set c key v cb)) =
         w\<lparr>conn := (conn w)\<lparr>
              issued := issued (conn w) @
                [QueryUpsert (Handle coll) i (fmupd ''_key'' (JStr i) s) cb],
              invoked := invoked (conn w) @ [(cb, Null, TrueV)]\<rparr>,
           db := (db w)\<lparr>colls := fmupd coll (fmupd i (fmupd ''_key'' (JStr i) s) docs)
                   (colls (db w))\<rparr>,
           answered := Suc (length (issued (conn w)))\<rparr>"
proof -
  let ?r = "QueryUpsert (Handle coll) i (fmupd ''_key'' (JStr i) s) cb"
  let ?w0 = "w\<lparr>conn := (conn w)\<lparr>issued := issued (conn w) @ [?r]\<rparr>\<rparr>"
  have w0: "call w (\<lambda>c. Connector_set c key v cb) = ?w0"
    using call_set [OF getParams_cached [OF r c] t] by simp
  have "step ?w0 = answer (?w0\<lparr>answered := Suc (length (issued (conn w)))\<rparr>) ?r"
    using q by (intro step_open) (simp_all add: quiescent_def)
  also have "\<dots> = w\<lparr>conn := (conn w)\<lparr>
              issued := issued (conn w) @ [?r],
              invoked := invoked (conn w) @ [(cb, Null, TrueV)]\<rparr>,
           db := (db w)\<lparr>colls := fmupd coll (fmupd i (fmupd ''_key'' (JStr i) s) docs)
                   (colls (db w))\<rparr>,
           answered := Suc (length (issued (conn w)))\<rparr>" (is "_ = ?w1")
    using e by (subst answer_QueryUpsert_exists [where docs = docs]) simp_all
  finally have s1: "step ?w0 = ?w1" .
  have s2: "step ?w1 = ?w1"
    by (intro step_idle) simp
  show ?thesis
    by (simp only: run_2 w0 s1 s2)
qed

lemma set_drained_fresh:
  assumes q: "quiescent w"
    and r: "getParams_names (conn w) key = Some (coll, i)"
    and c: "collections_lookup (conn w) coll = None"
    and e: "fmlookup (colls (db w)) coll = Some docs"
    and t: "transformValueForStorage v = Inr s"
  shows "run 2 (call w (\<lambda>c. Connector_set c key v cb)) =
         w\<lparr>conn := (conn w)\<lparr>
              this_collections := fmupd coll (Handle coll) (this_collections (conn w)),
              issued := issued (conn w) @
                [CollectionGet coll,
                 QueryUpsert (Handle coll) i (fmupd ''_key'' (JStr i) s) cb],
              invoked := invoked (conn w) @ [(cb, Null, TrueV)]\<rparr>,
           db := (db w)\<lparr>colls := fmupd coll (fmupd i (fmupd ''_key'' (JStr i) s) docs)
                   (colls (db w))\<rparr>,
           answered := Suc (Suc (length (issued (conn w))))\<rparr>"
proof -
  let ?r = "QueryUpsert (Handle coll) i (fmupd ''_key'' (JStr i) s) cb"
  let ?c0 = "(conn w)\<lparr>
              this_collections := fmupd coll (Handle coll) (this_collections (conn w)),
              issued := issued (conn w) @ [CollectionGet coll, ?r]\<rparr>"
  let ?w0 = "w\<lparr>conn := ?c0\<rparr>"
  have w0: "call w (\<lambda>c. Connector_set c key v cb) = ?w0"
    using call_set [OF getParams_fresh [OF r c] t] by simp
  have "step ?w0 =
          answer (?w0\<lparr>answered := Suc (length (issued (conn w)))\<rparr>) (CollectionGet coll)"
    using q by (intro step_open [where rest = "[?r]"]) (simp_all add: quiescent_def)
  also have "\<dots> = ?w0\<lparr>answered := Suc (length (issued (conn w)))\<rparr>" (is "_ = ?w1")
    using e by (intro answer_CollectionGet_exists [where docs = docs]) simp
  finally have s1: "step ?w0 = ?w1" .
  have "step ?w1 =
          answer (?w1\<lparr>answered := Suc (length (issued (conn w) @ [CollectionGet coll]))\<rparr>) ?r"
    by (intro step_open [where rest = "[]"]) simp_all
  also have "\<dots> = w\<lparr>conn := ?c0\<lparr>invoked := invoked (conn w) @ [(cb, Null, TrueV)]\<rparr>,
           db := (db w)\<lparr>colls := fmupd coll (fmupd i (fmupd ''_key'' (JStr i) s) docs)
                   (colls (db w))\<rparr>,
           answered := Suc (Suc (length (issued (conn w))))\<rparr>" (is "_ = ?w2")
    using e by (subst answer_QueryUpsert_exists [where docs = docs]) simp_all
  finally have s2: "step ?w1 = ?w2" .
  show ?thesis
    by (simp only: run_2 w0 s1 s2)
qed

text \<open>A \<^verbatim>\<open>get\<close> that finds its document, and the two steps that answer it.\<close>

lemma get_drained:
  assumes q: "quiescent w"
    and r: "getParams_names (conn w) key = Some (coll, i)"
    and c: "collections_lookup (conn w) coll = Some (Handle coll)"
    and e: "fmlookup (colls (db w)) coll = Some docs"
    and d: "fmlookup docs key = Some (fmupd ''_key'' k s)"
    and f: "transformValueFromStorage s = Inr x"
  shows "invoked (conn (run 2 (call w (\<lambda>c. Connector_get c key cb)))) =
           invoked (conn w) @ [(cb, Null, Value x)] \<and>
         thrown (run 2 (call w (\<lambda>c. Connector_get c key cb))) = thrown w \<and>
         quiescent (run 2 (call w (\<lambda>c. Connector_get c key cb)))"
proof -
  let ?rec = "fmupd ''_id'' (JStr (coll @ ''/'' @ key))
                (fmupd ''_rev'' (JStr ''_rev'') (fmupd ''_key'' k s))"
  let ?r = "QueryFetch (Handle coll) key cb"
  let ?w0 = "w\<lparr>conn := (conn w)\<lparr>issued := issued (conn w) @ [?r]\<rparr>\<rparr>"
  have w0: "call w (\<lambda>c. Connector_get c key cb) = ?w0"
    using call_get [OF getParams_cached [OF r c]] by simp
  have "step ?w0 = answer (?w0\<lparr>answered := Suc (length (issued (conn w)))\<rparr>) ?r"
    using q by (intro step_open) (simp_all add: quiescent_def)
  also have "\<dots> = w\<lparr>conn := (conn w)\<lparr>issued := issued (conn w) @
                          [?r, CursorNext [?rec] cb]\<rparr>,
                      answered := Suc (length (issued (conn w)))\<rparr>" (is "_ = ?w1")
    using e d
    by (subst answer_QueryFetch_found [where docs = docs and doc = "fmupd ''_key'' k s"])
       simp_all
  finally have s1: "step ?w0 = ?w1" .
  have "step ?w1 =
          answer (?w1\<lparr>answered := Suc (length (issued (conn w) @ [?r]))\<rparr>)
            (CursorNext [?rec] cb)"
    by (intro step_open [where rest = "[]"]) simp_all
  also have "\<dots> = w\<lparr>conn := (conn w)\<lparr>issued := issued (conn w) @
                          [?r, CursorNext [?rec] cb],
                        invoked := invoked (conn w) @ [(cb, Null, Value x)]\<rparr>,
                      answered := Suc (Suc (length (issued (conn w))))\<rparr>" (is "_ = ?w2")
    using f
    by (subst answer_CursorNext_record [where x = x]) (simp_all add: fromStorage_bookkeeping)
  finally have s2: "step ?w1 = ?w2" .
  have "run 2 (call w (\<lambda>c. Connector_get c key cb)) = ?w2"
    by (simp only: run_2 w0 s1 s2)
  then show ?thesis
    by (simp add: quiescent_def)
qed

text \<open>
  Where the routed document id is the key itself (the delimiter is not in the key), the
  collection exists and the payload keeps clear of the reserved names, \<^verbatim>\<open>set\<close> followed
  by \<^verbatim>\<open>get\<close> gives back the value that was set.
\<close>

lemma set_then_get_same_id:
  assumes q: "quiescent w"
    and r: "getParams_names (conn w) key = Some (coll, key)"
    and h: "collections_lookup (conn w) coll = None \<or>
            collections_lookup (conn w) coll = Some (Handle coll)"
    and e: "fmlookup (colls (db w)) coll = Some docs"
    and p: "field v ''_d'' = Some d" "reserved_free d"
  shows "invoked (conn (run 2 (call (run 2 (call w (\<lambda>c. Connector_set c key v cb1)))
            (\<lambda>c. Connector_get c key cb2)))) =
         invoked (conn w) @ [(cb1, Null, TrueV), (cb2, Null, Value (Plain v))]"
proof -
  obtain s where t: "transformValueForStorage v = Inr s"
    and f: "transformValueFromStorage s = Inr (Plain v)"
    using fromStorage_toStorage [OF p] by blast
  let ?w1 = "run 2 (call w (\<lambda>c. Connector_set c key v cb1))"
  let ?doc = "fmupd ''_key'' (JStr key) s"
  have w1: "quiescent ?w1 \<and> invoked (conn ?w1) = invoked (conn w) @ [(cb1, Null, TrueV)] \<and>
        this_splitChar (conn ?w1) = this_splitChar (conn w) \<and>
        this_defaultCollection (conn ?w1) = this_defaultCollection (conn w) \<and>
        collections_lookup (conn ?w1) coll = Some (Handle coll) \<and>
        fmlookup (colls (db ?w1)) coll = Some (fmupd key ?doc docs)"
    using h
  proof
    assume c: "collections_lookup (conn w) coll = None"
    show ?thesis
      by (simp add: set_drained_fresh [OF q r c e t] quiescent_def collections_lookup_def)
  next
    assume c: "collections_lookup (conn w) coll = Some (Handle coll)"
    have "collections_lookup
            ((conn w)\<lparr>issued := issued (conn w) @
                [QueryUpsert (Handle coll) key (fmupd ''_key'' (JStr key) s) cb1],
              invoked := invoked (conn w) @ [(cb1, Null, TrueV)]\<rparr>) coll =
          collections_lookup (conn w) coll"
      by (rule collections_lookup_cong) simp
    then show ?thesis
      using c by (simp add: set_drained_cached [OF q r c e t] quiescent_def)
  qed
  have r1: "getParams_names (conn ?w1) key = Some (coll, key)"
    using w1 r getParams_names_cong [of "conn ?w1" "conn w" key] by simp
  have d: "fmlookup (fmupd key ?doc docs) key = Some ?doc"
    by simp
  show ?thesis
    using get_drained [OF _ r1 _ _ d f, of cb2] w1 by simp
qed

text \<open>
  The scenario of the test file of the repository gives the callbacks that the test
  expects: nothing for the missing key, success, the value that was set, success, nothing.
\<close>

lemma test_scenario_callbacks:
  "invoked (conn test_scenario) =
     [(1, Null, Null), (2, Null, TrueV), (3, Null, Value (Plain wolfram)),
      (4, Null, TrueV), (5, Null, Null)] \<and>
   thrown test_scenario = [] \<and>
   answered test_scenario = length (issued (conn test_scenario))"
  by code_simp

text \<open>
  C1 says that \<^verbatim>\<open>set\<close> followed by \<^verbatim>\<open>get\<close> on the same key gives back the value for every
  valid key. With the delimiter \<^verbatim>\<open>/\<close> and the key \<^verbatim>\<open>user/abc\<close>, \<^verbatim>\<open>set\<close> stores the
  document in the collection \<^verbatim>\<open>user\<close> under the routed id \<^verbatim>\<open>abc\<close> and succeeds, but
  \<^verbatim>\<open>get\<close> filters that collection by the whole key \<^verbatim>\<open>user/abc\<close>: it finds nothing and
  calls back with \<^verbatim>\<open>(null, null)\<close>, while the document is there under \<^verbatim>\<open>abc\<close>.
\<close>

theorem set_then_get_delimiter_key:
  "invoked (conn delimiter_scenario) = [(1, Null, TrueV), (2, Null, Null)] \<and>
   thrown delimiter_scenario = [] \<and>
   answered delimiter_scenario = length (issued (conn delimiter_scenario)) \<and>
   map transformValueFromStorage
     (snd (store_fetch (db delimiter_scenario) (Handle ''user'') ''abc'')) =
     [Inr (Plain wolfram)] \<and>
   snd (store_fetch (db delimiter_scenario) (Handle ''user'') ''user/abc'') = []"
  by code_simp

end
